theory Spec2Isabelle
  imports Main
begin

section \<open>JavaScript values\<close>

text \<open>
  The plugin reads the request context as \<^verbatim>\<open>any\<close>, so the fields of the
  \<^verbatim>\<open>persistedQuery\<close> extension are arbitrary JavaScript values. Numbers are
  restricted to the integers (the wire format's \<^verbatim>\<open>version\<close> is an integer).
\<close>

datatype jsval =
    JUndefined
  | JNull
  | JBool bool
  | JNum int
  | JStr string
  | JArr "jsval list"
  | JObj "(string \<times> jsval) list"

text \<open>Truthiness, as tested by \<^verbatim>\<open>if (v)\<close> and \<^verbatim>\<open>!v\<close>.\<close>

fun truthy :: "jsval \<Rightarrow> bool" where
  "truthy JUndefined = False"
| "truthy JNull = False"
| "truthy (JBool b) = b"
| "truthy (JNum n) = (n \<noteq> 0)"
| "truthy (JStr s) = (s \<noteq> [])"
| "truthy (JArr xs) = True"
| "truthy (JObj kvs) = True"

text \<open>\<^verbatim>\<open>v === undefined || v === null\<close>, the test behind \<^verbatim>\<open>??\<close> and \<^verbatim>\<open>?.\<close>.\<close>

fun nullish :: "jsval \<Rightarrow> bool" where
  "nullish JUndefined = True"
| "nullish JNull = True"
| "nullish v = False"

text \<open>\<^verbatim>\<open>typeof v === 'number'\<close>.\<close>

fun is_number :: "jsval \<Rightarrow> bool" where
  "is_number (JNum n) = True"
| "is_number v = False"

text \<open>
  \<^verbatim>\<open>v[k]\<close> on a value that is not nullish. The keys read by the plugin
  (\<^verbatim>\<open>request\<close>, \<^verbatim>\<open>req\<close>, \<^verbatim>\<open>body\<close>, \<^verbatim>\<open>extensions\<close>, \<^verbatim>\<open>persistedQuery\<close>,
  \<^verbatim>\<open>version\<close>, \<^verbatim>\<open>sha256Hash\<close>, ...) are own properties of objects only: on a string,
  number, boolean or array they read \<^verbatim>\<open>undefined\<close>.
\<close>

fun get_prop :: "jsval \<Rightarrow> string \<Rightarrow> jsval" where
  "get_prop (JObj kvs) k = (case map_of kvs k of None \<Rightarrow> JUndefined | Some v \<Rightarrow> v)"
| "get_prop v k = JUndefined"

text \<open>\<^verbatim>\<open>v?.[k]\<close>\<close>

definition opt_prop :: "jsval \<Rightarrow> string \<Rightarrow> jsval" where
  "opt_prop v k = (if nullish v then JUndefined else get_prop v k)"

text \<open>\<^verbatim>\<open>a ?? b\<close>\<close>

definition coalesce :: "jsval \<Rightarrow> jsval \<Rightarrow> jsval" where
  "coalesce a b = (if nullish a then b else a)"


section \<open>Errors, constants and types of plugin.ts\<close>

text \<open>
  \<^verbatim>\<open>PersistedQueryError(message, { code })\<close>. \<open>ParseFailure\<close> is whatever the host's
  \<^verbatim>\<open>parseFn\<close> throws on a text it rejects. \<open>TypeError\<close> is what reading a property
  of \<^verbatim>\<open>undefined\<close> or \<^verbatim>\<open>null\<close> throws.
\<close>

datatype error =
    PersistedQueryError (message: string) (code: string)
  | ParseFailure string
  | TypeError

definition errors_NOT_SUPPORTED :: string where "errors_NOT_SUPPORTED = ''PersistedQueryNotSupported''"
definition errors_NOT_FOUND :: string where "errors_NOT_FOUND = ''PersistedQueryNotFound''"
definition errors_HASH_MISSING :: string where "errors_HASH_MISSING = ''PersistedQueryHashMissing''"
definition errors_INVALID_VERSION :: string where "errors_INVALID_VERSION = ''Unsupported persisted query version''"
definition errors_HASH_MISMATCH :: string where "errors_HASH_MISMATCH = ''PersistedQueryHashMismatch''"

definition codes_NOT_SUPPORTED :: string where "codes_NOT_SUPPORTED = ''PERSISTED_QUERY_NOT_SUPPORTED''"
definition codes_NOT_FOUND :: string where "codes_NOT_FOUND = ''PERSISTED_QUERY_NOT_FOUND''"
definition codes_HASH_MISSING :: string where "codes_HASH_MISSING = ''PERSISTED_QUERY_HASH_MISSING''"
definition codes_INVALID_VERSION :: string where "codes_INVALID_VERSION = ''PERSISTED_QUERY_INVALID_VERSION''"
definition codes_HASH_MISMATCH :: string where "codes_HASH_MISMATCH = ''PERSISTED_QUERY_HASH_MISMATCH''"

definition DEFAULT_PROTOCOL_VERSION :: int where "DEFAULT_PROTOCOL_VERSION = 1"
definition PERSISTED_QUERY_EXTENSION_KEY :: string where "PERSISTED_QUERY_EXTENSION_KEY = ''persistedQuery''"

datatype HashAlgorithm = sha256 | sha512 | sha1 | md5

definition DEFAULT_HASH_ALGORITHM :: HashAlgorithm where "DEFAULT_HASH_ALGORITHM = sha256"

text \<open>The algorithm as the string interpolated into \<^verbatim>\<open>`${algorithm}Hash`\<close>.\<close>

fun algorithm_name :: "HashAlgorithm \<Rightarrow> string" where
  "algorithm_name sha256 = ''sha256''"
| "algorithm_name sha512 = ''sha512''"
| "algorithm_name sha1 = ''sha1''"
| "algorithm_name md5 = ''md5''"

text \<open>
  \<^verbatim>\<open>interface PersistedQuery { version; hash }\<close>. The default extractor copies both
  fields from the request as they are, so they are JavaScript values.
\<close>

record PersistedQuery =
  hash :: jsval
  version :: jsval

text \<open>The request context: the own properties of the context object.\<close>

type_synonym DefaultContext = "(string \<times> jsval) list"

text \<open>
  \<^verbatim>\<open>UseAutomaticPersistedQueryOptions\<close>; every option may be left out (\<open>None\<close>).
  The option \<^verbatim>\<open>version\<close> is the field \<open>opt_version\<close>. The \<^verbatim>\<open>store\<close> option is passed
  to the plugin separately, as the store in use.
\<close>

record UseAutomaticPersistedQueryOptions =
  hashAlgorithm :: "HashAlgorithm option"
  opt_version :: "int option"
  resolvePersistedQuery :: "(DefaultContext \<Rightarrow> error + PersistedQuery option) option"
  writeToContext :: "bool option"

text \<open>
  \<^verbatim>\<open>crypto.createHash(algo).update(query, 'utf8').digest('hex')\<close>: the digest function
  of the \<^verbatim>\<open>crypto\<close> library is a parameter.
\<close>

type_synonym crypto = "HashAlgorithm \<Rightarrow> string \<Rightarrow> string"

definition generateHash :: "crypto \<Rightarrow> string \<Rightarrow> HashAlgorithm \<Rightarrow> string" where
  "generateHash createHash query algo = createHash algo query"


section \<open>The default descriptor extractor\<close>

text \<open>\<^verbatim>\<open>(ctx.request ?? ctx.req)?.body?.extensions?.[PERSISTED_QUERY_EXTENSION_KEY]\<close>\<close>

definition extension_of :: "DefaultContext \<Rightarrow> jsval" where
  "extension_of ctx =
     (let body = opt_prop (coalesce (get_prop (JObj ctx) ''request'') (get_prop (JObj ctx) ''req'')) ''body''
      in opt_prop (opt_prop body ''extensions'') PERSISTED_QUERY_EXTENSION_KEY)"

definition getPersistedQueryFromContext ::
  "DefaultContext \<Rightarrow> HashAlgorithm \<Rightarrow> error + PersistedQuery option" where
  "getPersistedQueryFromContext context algorithm =
     (let pq = extension_of context in
      if truthy pq then
        (let key = algorithm_name algorithm @ ''Hash'' in
         if \<not> is_number (get_prop pq ''version'') \<and> get_prop pq key = JUndefined
         then Inl (PersistedQueryError errors_NOT_FOUND codes_NOT_FOUND)
         else Inr (Some \<lparr> hash = get_prop pq key,
                          version = coalesce (get_prop pq ''version'') (JNum 0) \<rparr>))
      else Inr None)"


section \<open>The store interface and the parse hook\<close>

text \<open>A stored query: \<^verbatim>\<open>string | DocumentNode\<close>; the document type is left open.\<close>

datatype 'd stored = Text string | Node 'd

text \<open>Truthiness of a stored query: a document object is truthy, a string unless empty.\<close>

fun truthy_stored :: "'d stored \<Rightarrow> bool" where
  "truthy_stored (Text t) = (t \<noteq> [])"
| "truthy_stored (Node d) = True"

text \<open>
  \<^verbatim>\<open>interface PersistedQueryStore { get; put }\<close> over a store state \<open>'s\<close>: \<open>get\<close>
  returns the entry (\<open>None\<close> for \<^verbatim>\<open>null\<close>) and the state it leaves.
\<close>

record ('s, 'd) PersistedQueryStore =
  get :: "jsval \<Rightarrow> 's \<Rightarrow> 'd stored option \<times> 's"
  put :: "jsval \<Rightarrow> 'd stored \<Rightarrow> 's \<Rightarrow> 's"

text \<open>Every call the plugin makes on the store is logged beside the store's state.\<close>

datatype 'd store_call = Get jsval | Put jsval "'d stored"

type_synonym ('s, 'd) world = "'s \<times> 'd store_call list"

definition call_get ::
  "('s, 'd) PersistedQueryStore \<Rightarrow> jsval \<Rightarrow> ('s, 'd) world \<Rightarrow> 'd stored option \<times> ('s, 'd) world" where
  "call_get store k w =
     (case get store k (fst w) of (r, s') \<Rightarrow> (r, (s', snd w @ [Get k])))"

definition call_put ::
  "('s, 'd) PersistedQueryStore \<Rightarrow> jsval \<Rightarrow> 'd stored \<Rightarrow> ('s, 'd) world \<Rightarrow> ('s, 'd) world" where
  "call_put store k v w = (put store k v (fst w), snd w @ [Put k v])"

text \<open>
  \<^verbatim>\<open>params.source\<close> as it arrives: a string; a \<^verbatim>\<open>Source\<close> object, whose \<^verbatim>\<open>body\<close> the
  code tests against \<^verbatim>\<open>undefined\<close>; or nothing (\<^verbatim>\<open>undefined\<close> or \<^verbatim>\<open>null\<close>), as for a
  request that sends only the hash.
\<close>

datatype source = SourceString string | SourceObject "string option" | NoSource

text \<open>
  \<^verbatim>\<open>typeof source === 'string' ? source : source.body\<close> (line 109): on a source that
  is \<^verbatim>\<open>undefined\<close> or \<^verbatim>\<open>null\<close> the read of \<^verbatim>\<open>body\<close> throws.
\<close>

fun query_of :: "source \<Rightarrow> error + string option" where
  "query_of (SourceString s) = Inr (Some s)"
| "query_of (SourceObject b) = Inr b"
| "query_of NoSource = Inl TypeError"

text \<open>
  What a call of \<^verbatim>\<open>onParse\<close> that does not throw has done: the document given to
  \<^verbatim>\<open>setParsedDocument\<close> (if called), the value given to \<^verbatim>\<open>extendContext\<close> under
  \<^verbatim>\<open>symbolInContext\<close> (if called), and the \<^verbatim>\<open>queryHash\<close> captured by the returned
  callback (\<open>None\<close> when \<^verbatim>\<open>onParse\<close> returns nothing).
\<close>

record 'd parse_hook_result =
  parsedDocument :: "'d option"
  contextExtension :: "source option"
  afterParse :: "jsval option"

definition expectedVersion :: "UseAutomaticPersistedQueryOptions \<Rightarrow> int" where
  "expectedVersion options =
     (case opt_version options of None \<Rightarrow> DEFAULT_PROTOCOL_VERSION | Some v \<Rightarrow> v)"

definition algorithm_of :: "UseAutomaticPersistedQueryOptions \<Rightarrow> HashAlgorithm" where
  "algorithm_of options =
     (case hashAlgorithm options of None \<Rightarrow> DEFAULT_HASH_ALGORITHM | Some a \<Rightarrow> a)"

text \<open>\<^verbatim>\<open>options?.writeToContext !== false\<close>\<close>

definition writes_to_context :: "UseAutomaticPersistedQueryOptions \<Rightarrow> bool" where
  "writes_to_context options = (writeToContext options \<noteq> Some False)"

definition getPersistedQuery ::
  "UseAutomaticPersistedQueryOptions \<Rightarrow> DefaultContext \<Rightarrow> error + PersistedQuery option" where
  "getPersistedQuery options context =
     (case resolvePersistedQuery options of
        Some resolve \<Rightarrow> resolve context
      | None \<Rightarrow> getPersistedQueryFromContext context (algorithm_of options))"

definition internal_error :: error where
  "internal_error = PersistedQueryError
     ''GraphQL operations must contain a non-empty `query` or a `persistedQuery` extension.''
     ''INTERNAL_SERVER_ERROR''"

definition mismatch_error :: "HashAlgorithm \<Rightarrow> error" where
  "mismatch_error algo = PersistedQueryError
     (''Provided '' @ algorithm_name algo @ '' hash does not match query'') codes_HASH_MISMATCH"

text \<open>
  The branch \<^verbatim>\<open>query === undefined\<close> of \<^verbatim>\<open>onParse\<close> (lines 131-150);
  \<^verbatim>\<open>!cachedQuery\<close> holds for \<^verbatim>\<open>null\<close> and for a stored query that is not truthy.
\<close>

definition lookup_branch ::
  "UseAutomaticPersistedQueryOptions \<Rightarrow> ('s, 'd) PersistedQueryStore \<Rightarrow> (string \<Rightarrow> string + 'd)
   \<Rightarrow> source \<Rightarrow> jsval \<Rightarrow> ('s, 'd) world \<Rightarrow> (error + 'd parse_hook_result) \<times> ('s, 'd) world" where
  "lookup_branch options store parseFn src queryHash w =
     (if \<not> truthy queryHash
      then (Inl (PersistedQueryError errors_HASH_MISSING codes_HASH_MISSING), w)
      else
        (case call_get store queryHash w of (cachedQuery, w') \<Rightarrow>
          (case cachedQuery of
             None \<Rightarrow> (Inl (PersistedQueryError errors_NOT_FOUND codes_NOT_FOUND), w')
           | Some c \<Rightarrow>
               if \<not> truthy_stored c
               then (Inl (PersistedQueryError errors_NOT_FOUND codes_NOT_FOUND), w')
               else
                 (case (case c of
                          Text t \<Rightarrow> (case parseFn t of Inl e \<Rightarrow> Inl (ParseFailure e) | Inr d \<Rightarrow> Inr d)
                        | Node d \<Rightarrow> Inr d) of
                    Inl e \<Rightarrow> (Inl e, w')
                  | Inr result \<Rightarrow>
                      (Inr \<lparr> parsedDocument = Some result,
                             contextExtension = (if writes_to_context options then Some src else None),
                             afterParse = None \<rparr>, w')))))"

text \<open>\<^verbatim>\<open>onParse\<close> of the plugin returned by \<^verbatim>\<open>useAutomaticPersistedQueries(options)\<close>.\<close>

definition onParse ::
  "crypto \<Rightarrow> UseAutomaticPersistedQueryOptions \<Rightarrow> ('s, 'd) PersistedQueryStore
   \<Rightarrow> (string \<Rightarrow> string + 'd) \<Rightarrow> DefaultContext \<Rightarrow> source \<Rightarrow> ('s, 'd) world
   \<Rightarrow> (error + 'd parse_hook_result) \<times> ('s, 'd) world" where
  "onParse createHash options store parseFn context src w =
     (case getPersistedQuery options context of
        Inl e \<Rightarrow> (Inl e, w)
      | Inr persistedQuery \<Rightarrow>
         (case query_of src of
            Inl e \<Rightarrow> (Inl e, w)
          | Inr query \<Rightarrow>
             (case persistedQuery of
                Some pq \<Rightarrow>
                  if is_number (version pq) \<and> version pq \<noteq> JNum (expectedVersion options)
                  then (Inl (PersistedQueryError errors_INVALID_VERSION codes_INVALID_VERSION), w)
                  else
                    (case query of
                       None \<Rightarrow> lookup_branch options store parseFn src (hash pq) w
                     | Some q \<Rightarrow>
                         if hash pq \<noteq> JStr (generateHash createHash q (algorithm_of options))
                         then (Inl (mismatch_error (algorithm_of options)), w)
                         else (Inr \<lparr> parsedDocument = None, contextExtension = None,
                                     afterParse = Some (hash pq) \<rparr>, w))
              | None \<Rightarrow>
                  (case query of
                     Some q \<Rightarrow>
                       if q \<noteq> []
                       then (Inr \<lparr> parsedDocument = None, contextExtension = None,
                                   afterParse = Some (JStr (generateHash createHash q (algorithm_of options))) \<rparr>, w)
                       else (Inl internal_error, w)
                   | None \<Rightarrow> (Inl internal_error, w)))))"

text \<open>
  The value the callback returned by \<^verbatim>\<open>onParse\<close> receives as \<^verbatim>\<open>result\<close>: nothing,
  an \<^verbatim>\<open>Error\<close>, or the document that it stores as the query.
\<close>

datatype 'd parse_result = ResultNull | ResultError | ResultDocument 'd

text \<open>The callback \<^verbatim>\<open>({ result }) => { ... }\<close> with its captured \<^verbatim>\<open>queryHash\<close>.\<close>

definition after_parse ::
  "('s, 'd) PersistedQueryStore \<Rightarrow> jsval \<Rightarrow> 'd parse_result \<Rightarrow> ('s, 'd) world \<Rightarrow> ('s, 'd) world" where
  "after_parse store queryHash result w =
     (case result of
        ResultNull \<Rightarrow> w
      | ResultError \<Rightarrow> w
      | ResultDocument d \<Rightarrow> if truthy queryHash then call_put store queryHash (Node d) w else w)"

text \<open>The version test of \<^verbatim>\<open>onParse\<close> (line 124) does not throw.\<close>

definition version_accepted :: "UseAutomaticPersistedQueryOptions \<Rightarrow> PersistedQuery \<Rightarrow> bool" where
  "version_accepted options pq =
     (\<not> (is_number (version pq) \<and> version pq \<noteq> JNum (expectedVersion options)))"


section \<open>The host around the hook\<close>

text \<open>
  The parse step of the plugin's host and the execution after it. The host calls
  \<^verbatim>\<open>onParse\<close>; unless \<^verbatim>\<open>setParsedDocument\<close> was called it parses the source with
  \<^verbatim>\<open>parseFn\<close>; it hands the result of parsing to the callback that \<^verbatim>\<open>onParse\<close>
  returned (the callback tests that \<^verbatim>\<open>result\<close> for being absent or an \<^verbatim>\<open>Error\<close> and
  stores it as the query document); a parsed document is then executed, and
  \<open>execute d\<close> tells whether the execution completes without error. The host's code is
  outside the plugin's package; only the order of these steps is taken from it.
\<close>

datatype 'd request_outcome = Rejected error | NotParsed | Executed 'd bool

definition handle_request ::
  "crypto \<Rightarrow> UseAutomaticPersistedQueryOptions \<Rightarrow> ('s, 'd) PersistedQueryStore
   \<Rightarrow> (string \<Rightarrow> string + 'd) \<Rightarrow> ('d \<Rightarrow> bool) \<Rightarrow> DefaultContext \<Rightarrow> source \<Rightarrow> ('s, 'd) world
   \<Rightarrow> 'd request_outcome \<times> ('s, 'd) world" where
  "handle_request createHash options store parseFn execute context src w =
     (case onParse createHash options store parseFn context src w of
        (Inl e, w') \<Rightarrow> (Rejected e, w')
      | (Inr r, w') \<Rightarrow>
          (let result =
                 (case parsedDocument r of
                    Some d \<Rightarrow> ResultDocument d
                  | None \<Rightarrow>
                      (case query_of src of
                         Inl e \<Rightarrow> ResultError
                       | Inr None \<Rightarrow> ResultError
                       | Inr (Some q) \<Rightarrow>
                           (case parseFn q of Inl e \<Rightarrow> ResultError | Inr d \<Rightarrow> ResultDocument d)));
               w'' = (case afterParse r of
                        None \<Rightarrow> w'
                      | Some queryHash \<Rightarrow> after_parse store queryHash result w')
           in case result of
                ResultDocument d \<Rightarrow> (Executed d (execute d), w'')
              | ResultNull \<Rightarrow> (NotParsed, w'')
              | ResultError \<Rightarrow> (NotParsed, w'')))"


section \<open>The bounded store (store.ts)\<close>

definition DEFAULT_MAX :: nat where "DEFAULT_MAX = 1000"
definition DEFAULT_TTL :: nat where "DEFAULT_TTL = 3600000"

text \<open>
  Modelled from the spec: the cache \<^verbatim>\<open>LRU(max, ttl)\<close> of the package \<^verbatim>\<open>tiny-lru\<close>, with
  its \<^verbatim>\<open>get\<close> and \<^verbatim>\<open>set\<close>, is not among the sources. The model follows the
  DocumentStore contract of the spec. An entry is the spec's CacheEntry: its value, its
  insertion time and its last access time. Times are clock readings in milliseconds;
  the entries are kept in insertion order.
\<close>

record 'v CacheEntry =
  val :: 'v
  insertedAt :: nat
  lastAccessedAt :: nat

record ('k, 'v) LRU_cache =
  capacity :: nat
  ttl :: nat
  items :: "('k \<times> 'v CacheEntry) list"

text \<open>Modelled from the spec: the empty cache with its capacity and time-to-live.\<close>

definition LRU :: "nat \<Rightarrow> nat \<Rightarrow> ('k, 'v) LRU_cache" where
  "LRU max_size time_to_live = \<lparr> capacity = max_size, ttl = time_to_live, items = [] \<rparr>"

text \<open>Modelled from the spec: an entry is expired once its time-to-live, measured from
  insertion, has elapsed.\<close>

definition expired :: "('k, 'v) LRU_cache \<Rightarrow> nat \<Rightarrow> 'v CacheEntry \<Rightarrow> bool" where
  "expired c now e = (insertedAt e + ttl c < now)"

definition remove_key :: "'k \<Rightarrow> ('k \<times> 'v CacheEntry) list \<Rightarrow> ('k \<times> 'v CacheEntry) list" where
  "remove_key k xs = filter (\<lambda>x. fst x \<noteq> k) xs"

definition touch :: "nat \<Rightarrow> 'k \<Rightarrow> ('k \<times> 'v CacheEntry) list \<Rightarrow> ('k \<times> 'v CacheEntry) list" where
  "touch now k xs = map (\<lambda>x. if fst x = k then (fst x, (snd x)\<lparr> lastAccessedAt := now \<rparr>) else x) xs"

text \<open>Modelled from the spec: the entry to evict is the least recently used, by last
  access time, ties broken by insertion order (the earliest inserted).\<close>

fun least_recent :: "('k \<times> 'v CacheEntry) list \<Rightarrow> ('k \<times> 'v CacheEntry) option" where
  "least_recent [] = None"
| "least_recent (x # xs) =
     (case least_recent xs of
        None \<Rightarrow> Some x
      | Some y \<Rightarrow> if lastAccessedAt (snd x) \<le> lastAccessedAt (snd y) then Some x else Some y)"

definition evict :: "('k \<times> 'v CacheEntry) list \<Rightarrow> ('k \<times> 'v CacheEntry) list" where
  "evict xs = (case least_recent xs of None \<Rightarrow> xs | Some x \<Rightarrow> remove_key (fst x) xs)"

text \<open>Modelled from the spec: \<^verbatim>\<open>get\<close> misses on a key never inserted and on an expired
  entry, which it removes; on a hit it returns the value and refreshes the recency.\<close>

definition lru_get :: "nat \<Rightarrow> 'k \<Rightarrow> ('k, 'v) LRU_cache \<Rightarrow> 'v option \<times> ('k, 'v) LRU_cache" where
  "lru_get now k c =
     (case map_of (items c) k of
        None \<Rightarrow> (None, c)
      | Some e \<Rightarrow>
          if expired c now e
          then (None, c\<lparr> items := remove_key k (items c) \<rparr>)
          else (Some (val e), c\<lparr> items := touch now k (items c) \<rparr>))"

text \<open>Modelled from the spec: \<^verbatim>\<open>set\<close> inserts or overwrites (the entry of the key, if
  any, gives way to one inserted now) and refreshes the recency; if the insertion
  pushes the entry count over the capacity, the least recently used entry is evicted.\<close>

definition insert_entry ::
  "nat \<Rightarrow> 'k \<Rightarrow> 'v \<Rightarrow> ('k \<times> 'v CacheEntry) list \<Rightarrow> ('k \<times> 'v CacheEntry) list" where
  "insert_entry now k v xs =
     remove_key k xs @ [(k, \<lparr> val = v, insertedAt = now, lastAccessedAt = now \<rparr>)]"

definition lru_set :: "nat \<Rightarrow> 'k \<Rightarrow> 'v \<Rightarrow> ('k, 'v) LRU_cache \<Rightarrow> ('k, 'v) LRU_cache" where
  "lru_set now k v c =
     (let inserted = insert_entry now k v (items c)
      in c\<lparr> items := (if capacity c < length inserted then evict inserted else inserted) \<rparr>)"

text \<open>
  \<^verbatim>\<open>createLRUStore(maxSize?, ttl?)\<close>: the cache it creates, and its two methods at the
  clock reading \<open>now\<close>; \<^verbatim>\<open>cache.get(hash) ?? null\<close> is \<open>None\<close> on a miss.
\<close>

definition createLRUStore :: "nat option \<Rightarrow> nat option \<Rightarrow> (jsval, 'd stored) LRU_cache" where
  "createLRUStore maxSize time_to_live =
     LRU (case maxSize of None \<Rightarrow> DEFAULT_MAX | Some m \<Rightarrow> m)
         (case time_to_live of None \<Rightarrow> DEFAULT_TTL | Some t \<Rightarrow> t)"

definition LRUStore :: "nat \<Rightarrow> ((jsval, 'd stored) LRU_cache, 'd) PersistedQueryStore" where
  "LRUStore now = \<lparr> get = (\<lambda>hash cache. lru_get now hash cache),
                    put = (\<lambda>hash query cache. lru_set now hash query cache) \<rparr>"

text \<open>A sequence of store operations, each at its clock reading.\<close>

datatype 'd store_op = OpGet nat jsval | OpPut nat jsval "'d stored"

fun apply_store_op :: "'d store_op \<Rightarrow> (jsval, 'd stored) LRU_cache \<Rightarrow> (jsval, 'd stored) LRU_cache" where
  "apply_store_op (OpGet now h) c = snd (get (LRUStore now) h c)"
| "apply_store_op (OpPut now h q) c = put (LRUStore now) h q c"

fun run_store_ops :: "'d store_op list \<Rightarrow> (jsval, 'd stored) LRU_cache \<Rightarrow> (jsval, 'd stored) LRU_cache" where
  "run_store_ops [] c = c"
| "run_store_ops (x # xs) c = run_store_ops xs (apply_store_op x c)"

text \<open>The clock reading of an operation.\<close>

fun op_time :: "'d store_op \<Rightarrow> nat" where
  "op_time (OpGet now h) = now"
| "op_time (OpPut now h q) = now"

text \<open>The keys a \<^verbatim>\<open>put\<close> removes: present before the call (or inserted by it), absent after.\<close>

definition evicted_by_put ::
  "nat \<Rightarrow> jsval \<Rightarrow> 'd stored \<Rightarrow> (jsval, 'd stored) LRU_cache \<Rightarrow> jsval set" where
  "evicted_by_put now h q c =
     (insert h (fst ` set (items c))) - fst ` set (items (put (LRUStore now) h q c))"


section \<open>Example values\<close>

text \<open>The unbounded in-memory store of the README, over an association list.\<close>

definition myStore :: "((jsval \<times> 'd stored) list, 'd) PersistedQueryStore" where
  "myStore = \<lparr> get = (\<lambda>key data. (map_of data key, data)),
               put = (\<lambda>key document data. (key, document) # data) \<rparr>"

text \<open>A context whose \<^verbatim>\<open>request.body.extensions.persistedQuery\<close> is the given value.\<close>

definition request_context :: "jsval \<Rightarrow> DefaultContext" where
  "request_context pq =
     [(''request'', JObj [(''body'', JObj [(''extensions'', JObj [(''persistedQuery'', pq)])])])]"

definition no_options :: UseAutomaticPersistedQueryOptions where
  "no_options = \<lparr> hashAlgorithm = None, opt_version = None, resolvePersistedQuery = None,
                  writeToContext = None \<rparr>"

text \<open>A stand-in for the digest function, and a parser that accepts every text.\<close>

definition toy_hash :: crypto where
  "toy_hash algo query = algorithm_name algo @ '':'' @ query"

definition toy_parse :: "string \<Rightarrow> string + string" where
  "toy_parse t = Inr (''doc:'' @ t)"


section \<open>Evaluating the extractor on the example contexts\<close>

lemma extension_of_request_context: "extension_of (request_context pq) = pq"
  by (simp add: extension_of_def request_context_def opt_prop_def coalesce_def
      PERSISTED_QUERY_EXTENSION_KEY_def)

lemma algorithm_of_no_options: "algorithm_of no_options = sha256"
  by (simp add: algorithm_of_def no_options_def DEFAULT_HASH_ALGORITHM_def)

lemma expectedVersion_no_options: "expectedVersion no_options = 1"
  by (simp add: expectedVersion_def no_options_def DEFAULT_PROTOCOL_VERSION_def)

lemma getPersistedQuery_no_options:
  "getPersistedQuery no_options context = getPersistedQueryFromContext context sha256"
proof -
  have "resolvePersistedQuery no_options = None"
    by (simp add: no_options_def)
  then show ?thesis
    by (simp add: getPersistedQuery_def algorithm_of_no_options)
qed

lemma descriptor_of_extension:
  "getPersistedQueryFromContext
     (request_context (JObj [(''version'', JNum v), (''sha256Hash'', h)])) sha256
   = Inr (Some \<lparr> hash = h, version = JNum v \<rparr>)"
  by (simp add: getPersistedQueryFromContext_def extension_of_request_context coalesce_def)


section \<open>Hash verification\<close>

text \<open>
  Claim C1. A request with a descriptor whose version is accepted and with query text:
  if the descriptor's hash differs from the hash of the query text under the configured
  algorithm, \<^verbatim>\<open>onParse\<close> throws the error with code \<^verbatim>\<open>PERSISTED_QUERY_HASH_MISMATCH\<close>,
  whatever the store and its content (the store is not called); if they are equal,
  \<^verbatim>\<open>onParse\<close> throws nothing, sets no parsed document (the host parses the supplied
  text) and returns the callback holding the hash.
\<close>

theorem verify_hash_check:
  assumes "getPersistedQuery options context = Inr (Some pq)"
    and "version_accepted options pq"
    and "query_of src = Inr (Some q)"
  shows "(hash pq \<noteq> JStr (generateHash createHash q (algorithm_of options)) \<longrightarrow>
            onParse createHash options store parseFn context src w =
              (Inl (PersistedQueryError
                     (''Provided '' @ algorithm_name (algorithm_of options) @ '' hash does not match query'')
                     codes_HASH_MISMATCH), w))
       \<and> (hash pq = JStr (generateHash createHash q (algorithm_of options)) \<longrightarrow>
            onParse createHash options store parseFn context src w =
              (Inr \<lparr> parsedDocument = None, contextExtension = None,
                     afterParse = Some (JStr (generateHash createHash q (algorithm_of options))) \<rparr>, w))"
  using assms by (auto simp: onParse_def version_accepted_def mismatch_error_def)

theorem verify_hash_check_witness:
  "getPersistedQuery no_options
       (request_context (JObj [(''version'', JNum 1), (''sha256Hash'', JStr ''sha256:other'')]))
     = Inr (Some \<lparr> hash = JStr ''sha256:other'', version = JNum 1 \<rparr>)
   \<and> version_accepted no_options \<lparr> hash = JStr ''sha256:other'', version = JNum 1 \<rparr>
   \<and> query_of (SourceString ''{ hello }'') = Inr (Some ''{ hello }'')
   \<and> onParse toy_hash no_options myStore toy_parse
        (request_context (JObj [(''version'', JNum 1), (''sha256Hash'', JStr ''sha256:other'')]))
        (SourceString ''{ hello }'') ([(JStr ''sha256:other'', Node ''doc:other'')], [])
      = (Inl (PersistedQueryError ''Provided sha256 hash does not match query''
                ''PERSISTED_QUERY_HASH_MISMATCH''),
         ([(JStr ''sha256:other'', Node ''doc:other'')], []))"
proof -
  have d: "getPersistedQuery no_options
       (request_context (JObj [(''version'', JNum 1), (''sha256Hash'', JStr ''sha256:other'')]))
     = Inr (Some \<lparr> hash = JStr ''sha256:other'', version = JNum 1 \<rparr>)"
    by (simp add: getPersistedQuery_no_options descriptor_of_extension)
  have v: "version_accepted no_options \<lparr> hash = JStr ''sha256:other'', version = JNum 1 \<rparr>"
    by (simp add: version_accepted_def expectedVersion_no_options)
  have q: "query_of (SourceString ''{ hello }'') = Inr (Some ''{ hello }'')"
    by simp
  show ?thesis
    using verify_hash_check [OF d v q, of toy_hash myStore toy_parse
        "([(JStr ''sha256:other'', Node ''doc:other'')], [])"] d v
    by (simp add: generateHash_def toy_hash_def algorithm_of_no_options codes_HASH_MISMATCH_def)
qed

section \<open>The version check\<close>

lemmas error_strings =
  errors_NOT_FOUND_def errors_HASH_MISSING_def errors_INVALID_VERSION_def errors_HASH_MISMATCH_def
  codes_NOT_FOUND_def codes_HASH_MISSING_def codes_INVALID_VERSION_def codes_HASH_MISMATCH_def

lemma lookup_branch_not_invalid_version:
  "fst (lookup_branch options store parseFn src h w)
     \<noteq> Inl (PersistedQueryError errors_INVALID_VERSION codes_INVALID_VERSION)"
  by (simp add: lookup_branch_def error_strings split: prod.split option.split stored.split sum.split)

text \<open>With a descriptor, \<^verbatim>\<open>onParse\<close> throws the version error exactly on a source
  that can be read and a numeric version other than the expected one.\<close>

lemma invalid_version_iff:
  assumes "getPersistedQuery options context = Inr (Some pq)"
  shows "(fst (onParse createHash options store parseFn context src w)
            = Inl (PersistedQueryError errors_INVALID_VERSION codes_INVALID_VERSION))
       = (src \<noteq> NoSource \<and> (\<exists>n. version pq = JNum n \<and> n \<noteq> expectedVersion options))"
proof (cases "query_of src")
  case (Inl e)
  then have "src = NoSource" "e = TypeError"
    by (cases src; simp)+
  with assms show ?thesis
    by (simp add: onParse_def)
next
  case (Inr query)
  then have "src \<noteq> NoSource"
    by auto
  with assms Inr show ?thesis
    using lookup_branch_not_invalid_version [of options store parseFn src "hash pq" w]
    by (cases "version pq")
       (auto simp: onParse_def mismatch_error_def error_strings split: option.split)
qed

lemma absent_version_is_zero:
  assumes "getPersistedQueryFromContext context algorithm = Inr (Some pq)"
    and "extension_of context = JObj kvs" and "map_of kvs ''version'' = None"
  shows "version pq = JNum 0"
  using assms by (auto simp: getPersistedQueryFromContext_def coalesce_def Let_def split: if_splits)

lemma descriptor_without_version:
  "getPersistedQueryFromContext (request_context (JObj [(''sha256Hash'', h)])) sha256
   = (if h = JUndefined then Inl (PersistedQueryError errors_NOT_FOUND codes_NOT_FOUND)
      else Inr (Some \<lparr> hash = h, version = JNum 0 \<rparr>))"
  by (simp add: getPersistedQueryFromContext_def extension_of_request_context coalesce_def)
text \<open>
  Claim C2, as stated, fails: a request whose extension carries the right hash and no
  \<^verbatim>\<open>version\<close> is rejected with \<^verbatim>\<open>PERSISTED_QUERY_INVALID_VERSION\<close> under the default
  options, because the default extractor replaces the absent version by \<open>0\<close>.
\<close>

theorem absent_wire_version_counterexample:
  "onParse toy_hash no_options myStore toy_parse
     (request_context (JObj [(''sha256Hash'', JStr ''sha256:{ hello }'')]))
     (SourceString ''{ hello }'') ([], [])
   = (Inl (PersistedQueryError ''Unsupported persisted query version''
             ''PERSISTED_QUERY_INVALID_VERSION''), ([], []))"
  by (simp add: onParse_def getPersistedQuery_no_options descriptor_without_version
      expectedVersion_no_options error_strings)

text \<open>
  Claim C2, amended. For a descriptor handed to \<^verbatim>\<open>onParse\<close>, the version error is thrown
  exactly when the source can be read (it is not \<^verbatim>\<open>undefined\<close>) and the descriptor's
  version is a number different from the expected version; a version that is not a number (undefined, as a custom resolver may return
  it) passes the check. A version absent from the wire extension is not such a case:
  the descriptor the default extractor builds from it has version \<open>0\<close>.
\<close>

theorem version_check:
  assumes "getPersistedQuery options context = Inr (Some pq)"
  shows "((fst (onParse createHash options store parseFn context src w)
             = Inl (PersistedQueryError errors_INVALID_VERSION codes_INVALID_VERSION))
          = (src \<noteq> NoSource \<and> (\<exists>n. version pq = JNum n \<and> n \<noteq> expectedVersion options)))
       \<and> (resolvePersistedQuery options = None \<and> extension_of context = JObj kvs
            \<and> map_of kvs ''version'' = None \<longrightarrow> version pq = JNum 0)"
proof
  show "(fst (onParse createHash options store parseFn context src w)
             = Inl (PersistedQueryError errors_INVALID_VERSION codes_INVALID_VERSION))
          = (src \<noteq> NoSource \<and> (\<exists>n. version pq = JNum n \<and> n \<noteq> expectedVersion options))"
    using assms by (rule invalid_version_iff)
next
  show "resolvePersistedQuery options = None \<and> extension_of context = JObj kvs
            \<and> map_of kvs ''version'' = None \<longrightarrow> version pq = JNum 0"
  proof
    assume a: "resolvePersistedQuery options = None \<and> extension_of context = JObj kvs
            \<and> map_of kvs ''version'' = None"
    with assms have "getPersistedQueryFromContext context (algorithm_of options) = Inr (Some pq)"
      by (simp add: getPersistedQuery_def)
    with a show "version pq = JNum 0"
      by (blast intro: absent_version_is_zero)
  qed
qed

text \<open>A resolver of one's own that returns a descriptor without version, and the
  default extractor on an extension without version.\<close>

theorem version_check_witness:
  "getPersistedQuery
      (no_options\<lparr> resolvePersistedQuery :=
          Some (\<lambda>context. Inr (Some \<lparr> hash = JStr ''sha256:{ hello }'', version = JUndefined \<rparr>)) \<rparr>) []
     = Inr (Some \<lparr> hash = JStr ''sha256:{ hello }'', version = JUndefined \<rparr>)
   \<and> fst (onParse toy_hash
        (no_options\<lparr> resolvePersistedQuery :=
          Some (\<lambda>context. Inr (Some \<lparr> hash = JStr ''sha256:{ hello }'', version = JUndefined \<rparr>)) \<rparr>)
        myStore toy_parse [] (SourceString ''{ hello }'') ([], []))
     \<noteq> Inl (PersistedQueryError errors_INVALID_VERSION codes_INVALID_VERSION)
   \<and> getPersistedQuery no_options (request_context (JObj [(''sha256Hash'', JStr ''abc'')]))
     = Inr (Some \<lparr> hash = JStr ''abc'', version = JNum 0 \<rparr>)
   \<and> resolvePersistedQuery no_options = None
   \<and> extension_of (request_context (JObj [(''sha256Hash'', JStr ''abc'')]))
     = JObj [(''sha256Hash'', JStr ''abc'')]
   \<and> map_of [(''sha256Hash'', JStr ''abc'')] ''version'' = None
   \<and> fst (onParse toy_hash no_options myStore toy_parse
        (request_context (JObj [(''sha256Hash'', JStr ''abc'')])) (SourceObject None) ([], []))
     = Inl (PersistedQueryError errors_INVALID_VERSION codes_INVALID_VERSION)"
proof -
  let ?options = "no_options\<lparr> resolvePersistedQuery :=
          Some (\<lambda>context. Inr (Some \<lparr> hash = JStr ''sha256:{ hello }'', version = JUndefined \<rparr>)) \<rparr>"
  have d: "getPersistedQuery ?options []
     = Inr (Some \<lparr> hash = JStr ''sha256:{ hello }'', version = JUndefined \<rparr>)"
    by (simp add: getPersistedQuery_def)
  have d': "getPersistedQuery no_options (request_context (JObj [(''sha256Hash'', JStr ''abc'')]))
     = Inr (Some \<lparr> hash = JStr ''abc'', version = JNum 0 \<rparr>)"
    by (simp add: getPersistedQuery_no_options descriptor_without_version)
  have r: "resolvePersistedQuery no_options = None"
    by (simp add: no_options_def)
  show ?thesis
    using version_check [OF d, of toy_hash myStore toy_parse "SourceString ''{ hello }''" "([], [])"]
      version_check [OF d', of toy_hash myStore toy_parse "SourceObject None" "([], [])"
        "[(''sha256Hash'', JStr ''abc'')]"] d d' r
    by (simp add: extension_of_request_context expectedVersion_no_options)
qed

text \<open>
  Claim C3, as stated, fails: with the option \<^verbatim>\<open>version\<close> left undefined, a descriptor
  with version \<open>2\<close> and the right hash is rejected with
  \<^verbatim>\<open>PERSISTED_QUERY_INVALID_VERSION\<close>.
\<close>

theorem undefined_version_option_counterexample:
  "opt_version no_options = None
   \<and> onParse toy_hash no_options myStore toy_parse
       (request_context (JObj [(''version'', JNum 2), (''sha256Hash'', JStr ''sha256:{ hello }'')]))
       (SourceString ''{ hello }'') ([], [])
     = (Inl (PersistedQueryError ''Unsupported persisted query version''
               ''PERSISTED_QUERY_INVALID_VERSION''), ([], []))"
  by (simp add: onParse_def getPersistedQuery_no_options descriptor_of_extension
      expectedVersion_no_options error_strings) (simp add: no_options_def)

text \<open>
  Claim C3, amended. With the option \<^verbatim>\<open>version\<close> undefined the expected version is the
  default \<open>1\<close>, and version enforcement stays on: a descriptor is rejected with the
  version error exactly when its version is a number other than \<open>1\<close> (and the source
  can be read, that is, is not \<^verbatim>\<open>undefined\<close>).
\<close>

theorem undefined_version_option:
  assumes "opt_version options = None"
    and "getPersistedQuery options context = Inr (Some pq)"
  shows "expectedVersion options = 1
       \<and> ((fst (onParse createHash options store parseFn context src w)
             = Inl (PersistedQueryError errors_INVALID_VERSION codes_INVALID_VERSION))
          = (src \<noteq> NoSource \<and> (\<exists>n. version pq = JNum n \<and> n \<noteq> 1)))"
proof -
  have e: "expectedVersion options = 1"
    using assms(1) by (simp add: expectedVersion_def DEFAULT_PROTOCOL_VERSION_def)
  show ?thesis
    using invalid_version_iff [OF assms(2), of createHash store parseFn src w] e by simp
qed

theorem undefined_version_option_witness:
  "opt_version no_options = None
   \<and> getPersistedQuery no_options
       (request_context (JObj [(''version'', JNum 3), (''sha256Hash'', JStr ''abc'')]))
      = Inr (Some \<lparr> hash = JStr ''abc'', version = JNum 3 \<rparr>)
   \<and> fst (onParse toy_hash no_options myStore toy_parse
       (request_context (JObj [(''version'', JNum 3), (''sha256Hash'', JStr ''abc'')]))
       (SourceObject None) ([], []))
      = Inl (PersistedQueryError errors_INVALID_VERSION codes_INVALID_VERSION)"
proof -
  have o: "opt_version no_options = None"
    by (simp add: no_options_def)
  have d: "getPersistedQuery no_options
       (request_context (JObj [(''version'', JNum 3), (''sha256Hash'', JStr ''abc'')]))
      = Inr (Some \<lparr> hash = JStr ''abc'', version = JNum 3 \<rparr>)"
    by (simp add: getPersistedQuery_no_options descriptor_of_extension)
  show ?thesis
    using undefined_version_option [OF o d, of toy_hash myStore toy_parse "SourceObject None" "([], [])"] o d
    by simp
qed

section \<open>Lookup without query text\<close>

text \<open>
  The branch for an undefined query is reached only through a \<^verbatim>\<open>Source\<close> object
  without \<^verbatim>\<open>body\<close>. There a falsy hash fails with \<^verbatim>\<open>HASH_MISSING\<close> without calling the
  store; otherwise the store is asked once: nothing, or an empty string, fails with
  \<^verbatim>\<open>NOT_FOUND\<close>, a stored document resolves as it is, and a stored text as the host's
  parser reads it.
\<close>

lemma lookup_without_body:
  assumes "getPersistedQuery options context = Inr (Some pq)"
    and "version_accepted options pq"
    and "query_of src = Inr None"
    and "get store (hash pq) (fst w) = (r, s')"
  shows "(\<not> truthy (hash pq) \<longrightarrow>
            onParse createHash options store parseFn context src w
              = (Inl (PersistedQueryError errors_HASH_MISSING codes_HASH_MISSING), w))
       \<and> (truthy (hash pq) \<longrightarrow>
            onParse createHash options store parseFn context src w
              = ((case r of
                    None \<Rightarrow> Inl (PersistedQueryError errors_NOT_FOUND codes_NOT_FOUND)
                  | Some (Node d) \<Rightarrow>
                      Inr \<lparr> parsedDocument = Some d,
                            contextExtension = (if writes_to_context options then Some src else None),
                            afterParse = None \<rparr>
                  | Some (Text t) \<Rightarrow>
                      if t = [] then Inl (PersistedQueryError errors_NOT_FOUND codes_NOT_FOUND)
                      else (case parseFn t of
                              Inl e \<Rightarrow> Inl (ParseFailure e)
                            | Inr d \<Rightarrow>
                                Inr \<lparr> parsedDocument = Some d,
                                      contextExtension = (if writes_to_context options then Some src else None),
                                      afterParse = None \<rparr>)),
                 (s', snd w @ [Get (hash pq)])))"
  using assms
  by (auto simp: onParse_def version_accepted_def lookup_branch_def call_get_def
      split: option.split stored.split sum.split)

text \<open>Without a source, \<^verbatim>\<open>onParse\<close> throws at line 109 once the descriptor is extracted,
  whatever the descriptor and the store.\<close>

lemma no_source_throws:
  assumes "getPersistedQuery options context = Inr d"
  shows "onParse createHash options store parseFn context NoSource w = (Inl TypeError, w)"
  using assms by (simp add: onParse_def)

text \<open>
  Claim C5 on the code. A request that sends only the hash arrives without a source.
  With a descriptor of the expected version whose hash the store holds, the claim has
  the request resolve with the cached document (and fail with \<^verbatim>\<open>HASH_MISSING\<close> or
  \<^verbatim>\<open>NOT_FOUND\<close> in the other two cases); \<^verbatim>\<open>onParse\<close> throws a \<^verbatim>\<open>TypeError\<close> instead,
  reading \<^verbatim>\<open>source.body\<close>, and never asks the store.
\<close>

theorem hash_only_request_throws:
  "onParse toy_hash no_options myStore toy_parse
       (request_context (JObj [(''version'', JNum 1), (''sha256Hash'', JStr ''abc'')]))
       NoSource ([(JStr ''abc'', Node ''doc:{ hello }'')], [])
     = (Inl TypeError, ([(JStr ''abc'', Node ''doc:{ hello }'')], []))
   \<and> onParse toy_hash no_options myStore toy_parse
       (request_context (JObj [(''version'', JNum 1), (''sha256Hash'', JStr '''')]))
       NoSource ([], [])
     = (Inl TypeError, ([], []))
   \<and> onParse toy_hash no_options myStore toy_parse
       (request_context (JObj [(''version'', JNum 1), (''sha256Hash'', JStr ''abc'')]))
       NoSource ([], [])
     = (Inl TypeError, ([], []))"
  by (simp add: onParse_def getPersistedQuery_no_options descriptor_of_extension)


section \<open>The default extractor\<close>

text \<open>
  Claim C7. When the \<^verbatim>\<open>persistedQuery\<close> extension is absent from the request context,
  the default extractor returns no descriptor and throws nothing, and a request with
  query text is then handled as a submission without descriptor (its hash is computed
  for the callback). When the extension is an object whose \<^verbatim>\<open>version\<close> is not a number
  and that has no field \<^verbatim>\<open>{algorithm}Hash\<close>, the extractor throws the error with code
  \<^verbatim>\<open>PERSISTED_QUERY_NOT_FOUND\<close>.
\<close>

theorem default_extractor:
  "(extension_of ctx = JUndefined \<longrightarrow>
      getPersistedQueryFromContext ctx algorithm = Inr None
      \<and> (resolvePersistedQuery options = None \<and> query_of src = Inr (Some q) \<and> q \<noteq> [] \<longrightarrow>
           onParse createHash options store parseFn ctx src w
             = (Inr \<lparr> parsedDocument = None, contextExtension = None,
                      afterParse = Some (JStr (generateHash createHash q (algorithm_of options))) \<rparr>, w)))
   \<and> (extension_of ctx = JObj kvs \<and> \<not> is_number (get_prop (JObj kvs) ''version'')
        \<and> map_of kvs (algorithm_name algorithm @ ''Hash'') = None \<longrightarrow>
      getPersistedQueryFromContext ctx algorithm
        = Inl (PersistedQueryError errors_NOT_FOUND codes_NOT_FOUND))"
  by (auto simp: getPersistedQueryFromContext_def getPersistedQuery_def onParse_def)

theorem default_extractor_witness:
  "extension_of [] = JUndefined
   \<and> getPersistedQueryFromContext [] sha256 = Inr None
   \<and> resolvePersistedQuery no_options = None
   \<and> onParse toy_hash no_options myStore toy_parse [] (SourceString ''{ hello }'') ([], [])
       = (Inr \<lparr> parsedDocument = None, contextExtension = None,
                afterParse = Some (JStr ''sha256:{ hello }'') \<rparr>, ([], []))
   \<and> extension_of (request_context (JObj [(''version'', JStr ''1'')])) = JObj [(''version'', JStr ''1'')]
   \<and> \<not> is_number (get_prop (JObj [(''version'', JStr ''1'')]) ''version'')
   \<and> map_of [(''version'', JStr ''1'')] (algorithm_name sha256 @ ''Hash'') = None
   \<and> getPersistedQueryFromContext (request_context (JObj [(''version'', JStr ''1'')])) sha256
       = Inl (PersistedQueryError ''PersistedQueryNotFound'' ''PERSISTED_QUERY_NOT_FOUND'')"
proof -
  have a: "extension_of [] = JUndefined"
    by (simp add: extension_of_def opt_prop_def coalesce_def)
  have r: "resolvePersistedQuery no_options = None"
    by (simp add: no_options_def)
  show ?thesis
    using default_extractor [where ctx = "[]" and algorithm = sha256 and options = no_options
        and src = "SourceString ''{ hello }''" and q = "''{ hello }''" and createHash = toy_hash
        and store = myStore and parseFn = toy_parse and w = "([], [])"]
      default_extractor [where ctx = "request_context (JObj [(''version'', JStr ''1'')])"
        and kvs = "[(''version'', JStr ''1'')]" and algorithm = sha256] a r
    by (simp add: extension_of_request_context algorithm_of_no_options generateHash_def
        toy_hash_def error_strings)
qed
section \<open>A falsy hash beside query text\<close>

text \<open>
  Claim C10, as stated, fails: a request with query text and a descriptor whose hash
  is empty, but whose version is \<open>2\<close>, fails with \<^verbatim>\<open>PERSISTED_QUERY_INVALID_VERSION\<close>,
  not with the hash mismatch: the version is checked first.
\<close>

theorem falsy_hash_counterexample:
  "\<not> truthy (JStr '''')
   \<and> onParse toy_hash no_options myStore toy_parse
       (request_context (JObj [(''version'', JNum 2), (''sha256Hash'', JStr '''')]))
       (SourceString ''{ hello }'') ([], [])
     = (Inl (PersistedQueryError ''Unsupported persisted query version''
               ''PERSISTED_QUERY_INVALID_VERSION''), ([], []))"
  by (simp add: onParse_def getPersistedQuery_no_options descriptor_of_extension
      expectedVersion_no_options error_strings)

text \<open>
  Claim C10, amended. For a request with query text and a descriptor of accepted
  version whose hash is falsy, \<^verbatim>\<open>onParse\<close> throws the hash mismatch, given that the
  digest of the query text is not the empty string (a hex digest never is). And
  whatever the version, a request with a descriptor and query text never fails with
  \<^verbatim>\<open>PERSISTED_QUERY_HASH_MISSING\<close>: that check is in the branch without query text.
\<close>

theorem falsy_hash_with_query:
  assumes "getPersistedQuery options ctx = Inr (Some pq)"
    and "query_of src = Inr (Some q)"
  shows "(version_accepted options pq \<and> \<not> truthy (hash pq)
            \<and> generateHash createHash q (algorithm_of options) \<noteq> [] \<longrightarrow>
          onParse createHash options store parseFn ctx src w
            = (Inl (PersistedQueryError
                     (''Provided '' @ algorithm_name (algorithm_of options) @ '' hash does not match query'')
                     codes_HASH_MISMATCH), w))
       \<and> fst (onParse createHash options store parseFn ctx src w)
            \<noteq> Inl (PersistedQueryError errors_HASH_MISSING codes_HASH_MISSING)"
proof -
  have "hash pq \<noteq> JStr (generateHash createHash q (algorithm_of options))"
    if "\<not> truthy (hash pq)" and "generateHash createHash q (algorithm_of options) \<noteq> []"
    using that by (cases "hash pq") auto
  then show ?thesis
    using assms
    by (auto simp: onParse_def version_accepted_def mismatch_error_def error_strings)
qed

theorem falsy_hash_with_query_witness:
  "getPersistedQuery no_options
       (request_context (JObj [(''version'', JNum 1), (''sha256Hash'', JStr '''')]))
     = Inr (Some \<lparr> hash = JStr '''', version = JNum 1 \<rparr>)
   \<and> query_of (SourceString ''{ hello }'') = Inr (Some ''{ hello }'')
   \<and> version_accepted no_options \<lparr> hash = JStr '''', version = JNum 1 \<rparr>
   \<and> \<not> truthy (JStr '''')
   \<and> generateHash toy_hash ''{ hello }'' (algorithm_of no_options) \<noteq> []
   \<and> onParse toy_hash no_options myStore toy_parse
       (request_context (JObj [(''version'', JNum 1), (''sha256Hash'', JStr '''')]))
       (SourceString ''{ hello }'') ([], [])
     = (Inl (PersistedQueryError ''Provided sha256 hash does not match query''
               ''PERSISTED_QUERY_HASH_MISMATCH''), ([], []))"
proof -
  have d: "getPersistedQuery no_options
       (request_context (JObj [(''version'', JNum 1), (''sha256Hash'', JStr '''')]))
     = Inr (Some \<lparr> hash = JStr '''', version = JNum 1 \<rparr>)"
    by (simp add: getPersistedQuery_no_options descriptor_of_extension)
  have q: "query_of (SourceString ''{ hello }'') = Inr (Some ''{ hello }'')"
    by simp
  have v: "version_accepted no_options \<lparr> hash = JStr '''', version = JNum 1 \<rparr>"
    by (simp add: version_accepted_def expectedVersion_no_options)
  have g: "generateHash toy_hash ''{ hello }'' (algorithm_of no_options) \<noteq> []"
    by (simp add: generateHash_def toy_hash_def algorithm_of_no_options)
  show ?thesis
    using falsy_hash_with_query [OF d q, of toy_hash myStore toy_parse "([], [])"] d v g
    by (simp add: algorithm_of_no_options codes_HASH_MISMATCH_def)
qed
section \<open>Writing to the context\<close>

text \<open>What a resolving \<^verbatim>\<open>onParse\<close> attaches to the context: the source, and only when it
  resolves from the store.\<close>

lemma context_extension_cases:
  assumes "onParse createHash options store parseFn ctx src w = (Inr r, w')"
  shows "contextExtension r
           = (if writeToContext options \<noteq> Some False \<and> src = SourceObject None
              then Some src else None)"
proof (cases src)
  case NoSource
  with assms show ?thesis
    by (auto simp: onParse_def split: sum.splits)
next
  case (SourceString q)
  with assms show ?thesis
    by (auto simp: onParse_def internal_error_def split: sum.splits option.splits if_splits)
next
  case (SourceObject b)
  with assms show ?thesis
    by (auto simp: onParse_def lookup_branch_def call_get_def writes_to_context_def
        internal_error_def
        split: sum.splits option.splits if_splits prod.splits stored.splits)
qed

text \<open>
  Claim C9 on the code, with \<^verbatim>\<open>writeToContext\<close> left at its default (true). A request
  whose descriptor matches its query text resolves, and nothing is attached to the
  context. A request resolved from the store gets a value attached under the reserved
  key, but the value is \<^verbatim>\<open>params.source\<close> (here the \<^verbatim>\<open>Source\<close> object without body), not
  the hash \<^verbatim>\<open>abc\<close> of the descriptor.
\<close>

theorem context_gets_source_not_hash:
  "writeToContext no_options \<noteq> Some False
   \<and> onParse toy_hash no_options myStore toy_parse
       (request_context (JObj [(''version'', JNum 1), (''sha256Hash'', JStr ''sha256:{ hello }'')]))
       (SourceString ''{ hello }'') ([], [])
     = (Inr \<lparr> parsedDocument = None, contextExtension = None,
              afterParse = Some (JStr ''sha256:{ hello }'') \<rparr>, ([], []))
   \<and> onParse toy_hash no_options myStore toy_parse
       (request_context (JObj [(''version'', JNum 1), (''sha256Hash'', JStr ''abc'')]))
       (SourceObject None) ([(JStr ''abc'', Text ''{ hello }'')], [])
     = (Inr \<lparr> parsedDocument = Some ''doc:{ hello }'',
              contextExtension = Some (SourceObject None), afterParse = None \<rparr>,
        ([(JStr ''abc'', Text ''{ hello }'')], [Get (JStr ''abc'')]))"
proof -
  have o: "writeToContext no_options = None"
    by (simp add: no_options_def)
  show ?thesis
    by (simp add: o onParse_def getPersistedQuery_no_options descriptor_of_extension
        expectedVersion_no_options algorithm_of_no_options generateHash_def toy_hash_def
        lookup_branch_def call_get_def myStore_def toy_parse_def writes_to_context_def)
qed


section \<open>Writes to the store\<close>

text \<open>
  Claim C4, as stated, fails: a request with query text and no descriptor is parsed,
  the callback stores the parsed document under the hash, and the execution of that
  document then fails. The write depends on the parse result, not on the execution.
\<close>

theorem put_before_execution_counterexample:
  "handle_request toy_hash no_options myStore toy_parse (\<lambda>d. False) []
       (SourceString ''{ hello }'') ([], [])
     = (Executed ''doc:{ hello }'' False,
        ([(JStr ''sha256:{ hello }'', Node ''doc:{ hello }'')],
         [Put (JStr ''sha256:{ hello }'') (Node ''doc:{ hello }'')]))"
  by (simp add: handle_request_def onParse_def getPersistedQuery_no_options
      getPersistedQueryFromContext_def extension_of_def opt_prop_def coalesce_def
      algorithm_of_no_options generateHash_def toy_hash_def toy_parse_def after_parse_def
      call_put_def myStore_def)

text \<open>
  Claim C4, amended. \<^verbatim>\<open>onParse\<close> itself never calls \<^verbatim>\<open>put\<close>: it leaves the store as it
  was, or as its single \<^verbatim>\<open>get\<close> left it. It returns the callback only when it resolves
  through supplied query text, never together with an error or a document from the
  store. The callback calls \<^verbatim>\<open>put(hash, document)\<close> only if the result it is given is
  a document (neither absent nor an \<^verbatim>\<open>Error\<close>) and the hash is truthy, and otherwise
  leaves the store untouched.
\<close>

theorem store_writes:
  "(onParse createHash options store parseFn ctx src w = (res, w') \<longrightarrow>
      (w' = w \<or> (\<exists>k. w' = (snd (get store k (fst w)), snd w @ [Get k])))
      \<and> (\<forall>r queryHash. res = Inr r \<and> afterParse r = Some queryHash \<longrightarrow>
            (\<exists>q. query_of src = Inr (Some q)) \<and> parsedDocument r = None \<and> w' = w))
   \<and> after_parse store queryHash ResultNull w = w
   \<and> after_parse store queryHash ResultError w = w
   \<and> after_parse store queryHash (ResultDocument d) w
       = (if truthy queryHash
          then (put store queryHash (Node d) (fst w), snd w @ [Put queryHash (Node d)])
          else w)"
proof -
  have a: "w' = w \<or> (\<exists>k. w' = (snd (get store k (fst w)), snd w @ [Get k]))"
    if "onParse createHash options store parseFn ctx src w = (res, w')"
    using that
    by (auto simp: onParse_def lookup_branch_def call_get_def Let_def
        split: sum.splits option.splits if_splits prod.splits stored.splits)
  have b: "(\<exists>q. query_of src = Inr (Some q)) \<and> parsedDocument r = None \<and> w' = w"
    if "onParse createHash options store parseFn ctx src w = (Inr r, w')"
      and "afterParse r = Some h" for r h
    using that
    by (auto simp: onParse_def lookup_branch_def call_get_def Let_def
        split: sum.splits option.splits if_splits prod.splits stored.splits)
  show ?thesis
    using a b by (auto simp: after_parse_def call_put_def)
qed

theorem store_writes_witness:
  "onParse toy_hash no_options myStore toy_parse
       (request_context (JObj [(''version'', JNum 1), (''sha256Hash'', JStr ''abc'')]))
       (SourceObject None) ([], [])
     = (Inl (PersistedQueryError ''PersistedQueryNotFound'' ''PERSISTED_QUERY_NOT_FOUND''),
        ([], [Get (JStr ''abc'')]))
   \<and> onParse toy_hash no_options myStore toy_parse [] (SourceString ''{ hello }'') ([], [])
     = (Inr \<lparr> parsedDocument = None, contextExtension = None,
              afterParse = Some (JStr ''sha256:{ hello }'') \<rparr>, ([], []))
   \<and> query_of (SourceString ''{ hello }'') = Inr (Some ''{ hello }'')
   \<and> after_parse myStore (JStr ''sha256:{ hello }'') (ResultDocument ''doc:{ hello }'') ([], [])
     = ([(JStr ''sha256:{ hello }'', Node ''doc:{ hello }'')],
        [Put (JStr ''sha256:{ hello }'') (Node ''doc:{ hello }'')])
   \<and> after_parse myStore (JStr ''sha256:{ hello }'') (ResultError :: string parse_result) ([], [])
     = ([], [])"
proof -
  have e1: "onParse toy_hash no_options myStore toy_parse
       (request_context (JObj [(''version'', JNum 1), (''sha256Hash'', JStr ''abc'')]))
       (SourceObject None) ([], [])
     = (Inl (PersistedQueryError ''PersistedQueryNotFound'' ''PERSISTED_QUERY_NOT_FOUND''),
        ([], [Get (JStr ''abc'')]))"
    by (simp add: onParse_def getPersistedQuery_no_options descriptor_of_extension
        expectedVersion_no_options lookup_branch_def call_get_def myStore_def error_strings)
  have e2: "onParse toy_hash no_options myStore toy_parse [] (SourceString ''{ hello }'') ([], [])
     = (Inr \<lparr> parsedDocument = None, contextExtension = None,
              afterParse = Some (JStr ''sha256:{ hello }'') \<rparr>, ([], []))"
    by (simp add: onParse_def getPersistedQuery_no_options getPersistedQueryFromContext_def
        extension_of_def opt_prop_def coalesce_def algorithm_of_no_options generateHash_def
        toy_hash_def)
  show ?thesis
    using store_writes [where createHash = toy_hash and options = no_options and store = myStore
        and parseFn = toy_parse and ctx = "[]" and src = "SourceString ''{ hello }''"
        and w = "([], [])" and queryHash = "JStr ''sha256:{ hello }''" and d = "''doc:{ hello }''"
        and res = "Inr \<lparr> parsedDocument = None, contextExtension = None,
              afterParse = Some (JStr ''sha256:{ hello }'') \<rparr>" and w' = "([], [])"]
      e1 e2
    by (simp add: myStore_def)
qed

section \<open>The bounded store: invariants\<close>

lemma keys_remove_key: "fst ` set (remove_key k xs) = fst ` set xs - {k}"
  by (auto simp: remove_key_def)

lemma length_remove_key: "length (remove_key k xs) \<le> length xs"
  by (simp add: remove_key_def)

lemma set_remove_key: "set (remove_key k xs) \<subseteq> set xs"
  by (auto simp: remove_key_def)

lemma distinct_remove_key: "distinct (map fst xs) \<Longrightarrow> distinct (map fst (remove_key k xs))"
  by (simp add: remove_key_def distinct_map_filter)

lemma length_remove_key_less: "k \<in> fst ` set xs \<Longrightarrow> length (remove_key k xs) < length xs"
  unfolding remove_key_def
  by (auto intro: length_filter_less)

lemma map_fst_touch: "map fst (touch now k xs) = map fst xs"
  by (induction xs) (auto simp: touch_def)

lemma length_touch: "length (touch now k xs) = length xs"
  by (simp add: touch_def)

lemma touch_entry:
  "(k', e') \<in> set (touch now k xs) \<Longrightarrow>
     \<exists>e. (k', e) \<in> set xs \<and> val e' = val e \<and> insertedAt e' = insertedAt e"
  by (auto simp: touch_def split: if_splits)

lemma least_recent_mem: "least_recent xs = Some x \<Longrightarrow> x \<in> set xs"
  by (induction xs arbitrary: x) (auto split: option.splits if_splits)

lemma least_recent_None: "(least_recent xs = None) = (xs = [])"
  by (cases xs) (auto split: option.splits)

lemma length_evict: "xs \<noteq> [] \<Longrightarrow> length (evict xs) < length xs"
proof -
  assume "xs \<noteq> []"
  then obtain x where x: "least_recent xs = Some x"
    using least_recent_None [of xs] by auto
  then have "fst x \<in> fst ` set xs"
    by (blast dest: least_recent_mem)
  with x show ?thesis
    by (simp add: evict_def length_remove_key_less)
qed

lemma set_evict: "set (evict xs) \<subseteq> set xs"
  using set_remove_key by (fastforce simp: evict_def split: option.splits)

lemma distinct_evict: "distinct (map fst xs) \<Longrightarrow> distinct (map fst (evict xs))"
  by (simp add: evict_def distinct_remove_key split: option.splits)


lemma keys_insert_entry: "fst ` set (insert_entry now k v xs) = insert k (fst ` set xs)"
  by (auto simp: insert_entry_def keys_remove_key)

lemma length_insert_entry: "length (insert_entry now k v xs) \<le> Suc (length xs)"
  by (simp add: insert_entry_def length_remove_key)

lemma distinct_insert_entry:
  "distinct (map fst xs) \<Longrightarrow> distinct (map fst (insert_entry now k v xs))"
  using keys_remove_key [of k xs] by (auto simp: insert_entry_def distinct_remove_key)

lemma insert_entry_key:
  "(k, e) \<in> set (insert_entry now k v xs) \<Longrightarrow>
     e = \<lparr> val = v, insertedAt = now, lastAccessedAt = now \<rparr>"
  by (auto simp: insert_entry_def remove_key_def)

lemma insert_entry_other:
  "(k', e) \<in> set (insert_entry now k v xs) \<Longrightarrow> k' \<noteq> k \<Longrightarrow> (k', e) \<in> set xs"
  by (auto simp: insert_entry_def remove_key_def)

lemma items_lru_set:
  "items (lru_set now k v c)
     = (if capacity c < length (insert_entry now k v (items c))
        then evict (insert_entry now k v (items c)) else insert_entry now k v (items c))"
  by (simp add: lru_set_def Let_def)

lemma set_items_lru_set: "set (items (lru_set now k v c)) \<subseteq> set (insert_entry now k v (items c))"
  using set_evict by (auto simp: items_lru_set)

lemma length_items_lru_set:
  assumes "length (items c) \<le> capacity c"
  shows "length (items (lru_set now k v c)) \<le> capacity c"
proof (cases "capacity c < length (insert_entry now k v (items c))")
  case True
  then have "insert_entry now k v (items c) \<noteq> []" by auto
  then have "length (evict (insert_entry now k v (items c))) < length (insert_entry now k v (items c))"
    by (rule length_evict)
  with assms length_insert_entry [of now k v "items c"] True show ?thesis
    by (simp add: items_lru_set)
next
  case False
  then show ?thesis by (simp add: items_lru_set)
qed

lemma items_lru_get:
  "items (snd (lru_get now k c)) = items c
   \<or> items (snd (lru_get now k c)) = remove_key k (items c)
   \<or> items (snd (lru_get now k c)) = touch now k (items c)"
  by (simp add: lru_get_def split: option.split)

lemma lru_get_fields [simp]:
  "capacity (snd (lru_get now k c)) = capacity c" "ttl (snd (lru_get now k c)) = ttl c"
  by (simp_all add: lru_get_def split: option.split)

lemma lru_set_fields [simp]:
  "capacity (lru_set now k v c) = capacity c" "ttl (lru_set now k v c) = ttl c"
  by (simp_all add: lru_set_def Let_def)

text \<open>What holds of the store after a sequence of operations \<open>ops\<close>.\<close>

lemma apply_store_op_fields [simp]:
  "capacity (apply_store_op x c) = capacity c" "ttl (apply_store_op x c) = ttl c"
  by (cases x; simp add: LRUStore_def)+

lemma run_store_ops_fields:
  "capacity (run_store_ops ops c) = capacity c \<and> ttl (run_store_ops ops c) = ttl c"
  by (induction ops arbitrary: c) auto

lemma run_store_ops_length:
  "length (items c) \<le> capacity c \<Longrightarrow>
     length (items (run_store_ops ops c)) \<le> capacity (run_store_ops ops c)"
proof (induction ops arbitrary: c)
  case Nil
  then show ?case by simp
next
  case (Cons x xs)
  have "length (items (apply_store_op x c)) \<le> capacity (apply_store_op x c)"
  proof (cases x)
    case (OpGet now h)
    then show ?thesis
      using Cons.prems items_lru_get [of now h c] length_remove_key [of h "items c"]
      by (auto simp: LRUStore_def length_touch)
  next
    case (OpPut now h q)
    then show ?thesis
      using Cons.prems by (simp add: LRUStore_def length_items_lru_set)
  qed
  then show ?case
    using Cons.IH by simp
qed

lemma run_store_ops_distinct:
  "distinct (map fst (items c)) \<Longrightarrow> distinct (map fst (items (run_store_ops ops c)))"
proof (induction ops arbitrary: c)
  case Nil
  then show ?case by simp
next
  case (Cons x xs)
  have "distinct (map fst (items (apply_store_op x c)))"
  proof (cases x)
    case (OpGet now h)
    then show ?thesis
      using Cons.prems items_lru_get [of now h c]
      by (auto simp: LRUStore_def map_fst_touch distinct_remove_key)
  next
    case (OpPut now h q)
    then show ?thesis
      using Cons.prems
      by (simp add: LRUStore_def items_lru_set distinct_evict distinct_insert_entry)
  qed
  then show ?case
    using Cons.IH by simp
qed

text \<open>Every entry was put, with its value, at its insertion time.\<close>

lemma apply_store_op_history:
  assumes "\<forall>(k, e) \<in> set (items c). OpPut (insertedAt e) k (val e) \<in> set pre"
  shows "\<forall>(k, e) \<in> set (items (apply_store_op x c)). OpPut (insertedAt e) k (val e) \<in> set (pre @ [x])"
proof (cases x)
  case (OpGet now h)
  have "OpPut (insertedAt e) k (val e) \<in> set pre"
    if "(k, e) \<in> set (items (snd (lru_get now h c)))" for k e
    using that assms items_lru_get [of now h c] set_remove_key [of h "items c"]
      touch_entry [of k e now h "items c"]
    by fastforce
  with OpGet show ?thesis
    by (auto simp: LRUStore_def)
next
  case (OpPut now h q)
  have "OpPut (insertedAt e) k (val e) \<in> set (pre @ [x])"
    if "(k, e) \<in> set (items (lru_set now h q c))" for k e
  proof -
    from that have m: "(k, e) \<in> set (insert_entry now h q (items c))"
      using set_items_lru_set [of now h q c] by auto
    show ?thesis
    proof (cases "k = h")
      case True
      with m have "e = \<lparr> val = q, insertedAt = now, lastAccessedAt = now \<rparr>"
        by (blast dest: insert_entry_key)
      with True OpPut show ?thesis by simp
    next
      case False
      with m have "(k, e) \<in> set (items c)"
        by (blast dest: insert_entry_other)
      with assms show ?thesis by auto
    qed
  qed
  with OpPut show ?thesis
    by (auto simp: LRUStore_def)
qed

lemma run_store_ops_history:
  assumes "\<forall>(k, e) \<in> set (items c). OpPut (insertedAt e) k (val e) \<in> set pre"
  shows "\<forall>(k, e) \<in> set (items (run_store_ops ops c)).
           OpPut (insertedAt e) k (val e) \<in> set (pre @ ops)"
  using assms
proof (induction ops arbitrary: c pre)
  case Nil
  then show ?case by simp
next
  case (Cons x xs)
  from apply_store_op_history [OF Cons.prems, of x]
  have "\<forall>(k, e) \<in> set (items (run_store_ops xs (apply_store_op x c))).
           OpPut (insertedAt e) k (val e) \<in> set ((pre @ [x]) @ xs)"
    by (rule Cons.IH)
  then show ?case by simp
qed

text \<open>A hit returns the value of a live entry of the key.\<close>

lemma lru_get_hit:
  assumes "fst (lru_get now k c) = Some v"
  shows "\<exists>e. (k, e) \<in> set (items c) \<and> val e = v \<and> now \<le> insertedAt e + ttl c"
proof -
  from assms obtain e where e: "map_of (items c) k = Some e" "\<not> expired c now e" "val e = v"
    by (auto simp: lru_get_def split: option.splits if_splits)
  from e(1) have "(k, e) \<in> set (items c)"
    by (rule map_of_SomeD)
  with e show ?thesis
    by (auto simp: expired_def)
qed

text \<open>What a \<^verbatim>\<open>put\<close> evicts.\<close>

lemma keys_evict:
  assumes "least_recent xs = Some x"
  shows "fst ` set (evict xs) = fst ` set xs - {fst x}"
  using assms by (simp add: evict_def keys_remove_key)

lemma evicted_by_put_cases:
  "evicted_by_put now h q c
     = (if capacity c < length (insert_entry now h q (items c))
        then (case least_recent (insert_entry now h q (items c)) of
                None \<Rightarrow> {} | Some x \<Rightarrow> {fst x})
        else {})"
proof (cases "capacity c < length (insert_entry now h q (items c))")
  case True
  then have "insert_entry now h q (items c) \<noteq> []" by auto
  then obtain x where x: "least_recent (insert_entry now h q (items c)) = Some x"
    using least_recent_None [of "insert_entry now h q (items c)"] by auto
  then have "fst x \<in> insert h (fst ` set (items c))"
    using least_recent_mem [OF x] keys_insert_entry [of now h q "items c"] by blast
  with True x show ?thesis
    using keys_insert_entry [of now h q "items c"]
    by (auto simp: evicted_by_put_def LRUStore_def items_lru_set keys_evict)
next
  case False
  then show ?thesis
    by (auto simp: evicted_by_put_def LRUStore_def items_lru_set keys_insert_entry)
qed

section \<open>The bounded store: the claims\<close>

text \<open>
  Claim C6. Let \<open>c\<close> be the default store after any sequence \<open>ops\<close> of \<^verbatim>\<open>get\<close> and
  \<^verbatim>\<open>put\<close> operations. Its capacity and time-to-live are the configured ones (by
  default 1000 entries and 3600000 ms), and its entry count does not exceed the
  capacity, one entry to a key. A value that \<^verbatim>\<open>get\<close> returns for a hash was put under that hash at most
  the time-to-live before. A single \<^verbatim>\<open>put\<close> evicts at most one key; when it evicts
  one, the store held as many entries as its capacity before the call, and the evicted
  key is the least recently used one.
\<close>

theorem bounded_store:
  assumes "c = run_store_ops ops (createLRUStore maxSize time_to_live)"
  shows "capacity c = (case maxSize of None \<Rightarrow> 1000 | Some m \<Rightarrow> m)
       \<and> ttl c = (case time_to_live of None \<Rightarrow> 3600000 | Some t \<Rightarrow> t)
       \<and> length (items c) \<le> capacity c
       \<and> distinct (map fst (items c))
       \<and> (fst (get (LRUStore now) h c) = Some q \<longrightarrow>
            (\<exists>t. OpPut t h q \<in> set ops \<and> now \<le> t + ttl c))
       \<and> card (evicted_by_put now h q c) \<le> 1
       \<and> (evicted_by_put now h q c \<noteq> {} \<longrightarrow>
            length (items c) = capacity c
            \<and> (\<exists>x. least_recent (insert_entry now h q (items c)) = Some x
                   \<and> evicted_by_put now h q c = {fst x}))"
proof -
  let ?c0 = "createLRUStore maxSize time_to_live :: (jsval, 'a stored) LRU_cache"
  have c0: "items ?c0 = []"
    by (simp add: createLRUStore_def LRU_def)
  have fields: "capacity c = (case maxSize of None \<Rightarrow> 1000 | Some m \<Rightarrow> m)"
    "ttl c = (case time_to_live of None \<Rightarrow> 3600000 | Some t \<Rightarrow> t)"
    using run_store_ops_fields [of ops ?c0] assms
    by (simp_all add: createLRUStore_def LRU_def DEFAULT_MAX_def DEFAULT_TTL_def split: option.split)
  have len: "length (items c) \<le> capacity c"
    using run_store_ops_length [of ?c0 ops] c0 assms by simp
  have dist: "distinct (map fst (items c))"
    using run_store_ops_distinct [of ?c0 ops] c0 assms by simp
  have hist: "\<forall>(k, e) \<in> set (items c). OpPut (insertedAt e) k (val e) \<in> set ops"
    using run_store_ops_history [of ?c0 "[]" ops] c0 assms by simp
  have hit: "\<exists>t. OpPut t h q \<in> set ops \<and> now \<le> t + ttl c"
    if "fst (get (LRUStore now) h c) = Some q"
  proof -
    from that have "fst (lru_get now h c) = Some q"
      by (simp add: LRUStore_def)
    then obtain e where "(h, e) \<in> set (items c)" "val e = q" "now \<le> insertedAt e + ttl c"
      by (blast dest: lru_get_hit)
    with hist show ?thesis by auto
  qed
  have one: "card (evicted_by_put now h q c) \<le> 1"
    by (simp add: evicted_by_put_cases split: option.split)
  have full: "length (items c) = capacity c
      \<and> (\<exists>x. least_recent (insert_entry now h q (items c)) = Some x
             \<and> evicted_by_put now h q c = {fst x})"
    if "evicted_by_put now h q c \<noteq> {}"
  proof -
    from that have over: "capacity c < length (insert_entry now h q (items c))"
      by (auto simp: evicted_by_put_cases split: if_splits)
    with that obtain x where x: "least_recent (insert_entry now h q (items c)) = Some x"
      "evicted_by_put now h q c = {fst x}"
      by (auto simp: evicted_by_put_cases split: option.splits)
    from over len length_insert_entry [of now h q "items c"]
    have "length (items c) = capacity c" by simp
    with x show ?thesis by simp
  qed
  from fields len dist hit one full show ?thesis by blast
qed

theorem bounded_store_witness:
  "run_store_ops [OpPut 0 (JStr ''h1'') (Text ''q1''), OpPut 1 (JStr ''h2'') (Node ''d2''),
                  OpGet 2 (JStr ''h1'')] (createLRUStore (Some 2) (Some 10))
     = \<lparr> capacity = 2, ttl = 10,
         items = [(JStr ''h1'', \<lparr> val = Text ''q1'', insertedAt = 0, lastAccessedAt = 2 \<rparr>),
                  (JStr ''h2'', \<lparr> val = Node ''d2'', insertedAt = 1, lastAccessedAt = 1 \<rparr>)] \<rparr>
   \<and> evicted_by_put 3 (JStr ''h3'') (Text ''q3'')
        \<lparr> capacity = 2, ttl = 10,
          items = [(JStr ''h1'', \<lparr> val = Text ''q1'', insertedAt = 0, lastAccessedAt = 2 \<rparr>),
                   (JStr ''h2'', \<lparr> val = Node ''d2'', insertedAt = 1, lastAccessedAt = 1 \<rparr>)] \<rparr>
     = {JStr ''h2''}
   \<and> fst (get (LRUStore 10) (JStr ''h1'')
        \<lparr> capacity = 2, ttl = 10,
          items = [(JStr ''h1'', \<lparr> val = Text ''q1'', insertedAt = 0, lastAccessedAt = 2 \<rparr>),
                   (JStr ''h2'', \<lparr> val = Node ''d2'', insertedAt = 1, lastAccessedAt = 1 \<rparr>)] \<rparr>)
     = Some (Text ''q1'')
   \<and> fst (get (LRUStore 11) (JStr ''h1'')
        \<lparr> capacity = 2, ttl = 10,
          items = [(JStr ''h1'', \<lparr> val = Text ''q1'', insertedAt = 0, lastAccessedAt = 2 \<rparr>),
                   (JStr ''h2'', \<lparr> val = Node ''d2'', insertedAt = 1, lastAccessedAt = 1 \<rparr>)] \<rparr>)
     = None"
proof -
  let ?ops = "[OpPut 0 (JStr ''h1'') (Text ''q1''), OpPut 1 (JStr ''h2'') (Node ''d2''),
               OpGet 2 (JStr ''h1'')]"
  let ?c = "\<lparr> capacity = 2, ttl = 10,
         items = [(JStr ''h1'', \<lparr> val = Text ''q1'', insertedAt = 0, lastAccessedAt = 2 \<rparr>),
                  (JStr ''h2'', \<lparr> val = Node ''d2'', insertedAt = 1, lastAccessedAt = 1 \<rparr>)] \<rparr>"
  have run: "?c = run_store_ops ?ops (createLRUStore (Some 2) (Some 10))"
    by (simp add: createLRUStore_def LRU_def LRUStore_def lru_set_def lru_get_def insert_entry_def
        remove_key_def touch_def expired_def evict_def)
  have ev: "evicted_by_put 3 (JStr ''h3'') (Text ''q3'') ?c = {JStr ''h2''}"
    by (simp add: evicted_by_put_def LRUStore_def lru_set_def insert_entry_def remove_key_def
        evict_def)
  have hit: "fst (get (LRUStore 10) (JStr ''h1'') ?c) = Some (Text ''q1'')"
    by (simp add: LRUStore_def lru_get_def expired_def)
  have miss: "fst (get (LRUStore 11) (JStr ''h1'') ?c) = None"
    by (simp add: LRUStore_def lru_get_def expired_def)
  show ?thesis
    using bounded_store [OF run, of 3 "JStr ''h3''" "Text ''q3''"]
      bounded_store [OF run, of 10 "JStr ''h1''" "Text ''q1''"] run ev hit miss
    by simp
qed

lemma map_of_unique:
  assumes "(k, e) \<in> set xs" and "\<And>e'. (k, e') \<in> set xs \<Longrightarrow> e' = e"
  shows "map_of xs k = Some e"
proof -
  from assms(1) obtain e' where e': "map_of xs k = Some e'"
    by (meson weak_map_of_SomeI)
  then have "(k, e') \<in> set xs"
    by (rule map_of_SomeD)
  with assms(2) e' show ?thesis by simp
qed

text \<open>An entry appended with the latest access is not the one to evict, unless it is alone.\<close>

lemma least_recent_snoc:
  assumes "xs \<noteq> []"
    and "\<forall>x \<in> set xs. lastAccessedAt (snd x) \<le> lastAccessedAt (snd n)"
  shows "\<exists>x \<in> set xs. least_recent (xs @ [n]) = Some x"
  using assms
proof (induction xs)
  case Nil
  then show ?case by simp
next
  case (Cons a xs)
  show ?case
  proof (cases "xs = []")
    case True
    with Cons.prems show ?thesis by simp
  next
    case False
    moreover from Cons.prems have "\<forall>x \<in> set xs. lastAccessedAt (snd x) \<le> lastAccessedAt (snd n)"
      by simp
    ultimately have "\<exists>x \<in> set xs. least_recent (xs @ [n]) = Some x"
      by (rule Cons.IH)
    then obtain y where "y \<in> set xs" "least_recent (xs @ [n]) = Some y"
      by blast
    then show ?thesis by simp
  qed
qed

text \<open>A \<^verbatim>\<open>put\<close> on a store of capacity above zero, none of whose entries was accessed
  after the clock reading of the \<^verbatim>\<open>put\<close>, keeps the entry it writes.\<close>

lemma lru_set_keeps_key:
  assumes "0 < capacity c"
    and "\<forall>x \<in> set (items c). lastAccessedAt (snd x) \<le> now"
  shows "h \<in> fst ` set (items (lru_set now h q c))"
proof (cases "capacity c < length (insert_entry now h q (items c))")
  case False
  then show ?thesis
    by (simp add: items_lru_set keys_insert_entry)
next
  case True
  let ?new = "(h, \<lparr> val = q, insertedAt = now, lastAccessedAt = now \<rparr>)"
  let ?rest = "remove_key h (items c)"
  from True assms(1) have "?rest \<noteq> []"
    by (auto simp: insert_entry_def)
  moreover have "\<forall>x \<in> set ?rest. lastAccessedAt (snd x) \<le> lastAccessedAt (snd ?new)"
    using assms(2) set_remove_key [of h "items c"] by auto
  ultimately obtain x where x: "x \<in> set ?rest" "least_recent (?rest @ [?new]) = Some x"
    using least_recent_snoc [of ?rest ?new] by blast
  from x(1) have "fst x \<noteq> h"
    by (auto simp: remove_key_def)
  with x(2) have "h \<in> fst ` set (evict (insert_entry now h q (items c)))"
    by (simp add: insert_entry_def keys_evict [OF x(2)])
  with True show ?thesis
    by (simp add: items_lru_set)
qed

text \<open>No entry of the store is accessed later than the latest of the operations.\<close>

lemma touch_recency:
  assumes "\<forall>x \<in> set xs. lastAccessedAt (snd x) \<le> t" and "now \<le> t"
  shows "\<forall>y \<in> set (touch now k xs). lastAccessedAt (snd y) \<le> t"
  using assms by (induction xs) (simp_all add: touch_def)

lemma apply_store_op_recency:
  assumes "\<forall>x \<in> set (items c). lastAccessedAt (snd x) \<le> t" and "op_time x \<le> t"
  shows "\<forall>y \<in> set (items (apply_store_op x c)). lastAccessedAt (snd y) \<le> t"
proof (cases x)
  case (OpGet now h)
  have "lastAccessedAt (snd y) \<le> t" if y: "y \<in> set (items (snd (lru_get now h c)))" for y
  proof -
    from items_lru_get [of now h c] consider
      "items (snd (lru_get now h c)) = items c"
      | "items (snd (lru_get now h c)) = remove_key h (items c)"
      | "items (snd (lru_get now h c)) = touch now h (items c)"
      by blast
    then show ?thesis
    proof cases
      case 1
      with y assms(1) show ?thesis by simp
    next
      case 2
      with y have "y \<in> set (items c)"
        using set_remove_key [of h "items c"] by auto
      with assms(1) show ?thesis by blast
    next
      case 3
      with y have "y \<in> set (touch now h (items c))" by simp
      moreover from assms(2) OpGet have "now \<le> t" by simp
      ultimately show ?thesis
        using touch_recency [OF assms(1), of now h] by blast
    qed
  qed
  with OpGet show ?thesis
    by (simp add: LRUStore_def)
next
  case (OpPut now h q)
  have "lastAccessedAt (snd y) \<le> t" if "y \<in> set (items (lru_set now h q c))" for y
  proof -
    from that have "y \<in> set (insert_entry now h q (items c))"
      using set_items_lru_set [of now h q c] by auto
    then have "y = (h, \<lparr> val = q, insertedAt = now, lastAccessedAt = now \<rparr>) \<or> y \<in> set (items c)"
      using set_remove_key [of h "items c"] by (auto simp: insert_entry_def)
    moreover from assms(2) OpPut have "now \<le> t" by simp
    ultimately show ?thesis
      using assms(1) by auto
  qed
  with OpPut show ?thesis
    by (simp add: LRUStore_def)
qed

lemma run_store_ops_recency:
  assumes "\<forall>x \<in> set (items c). lastAccessedAt (snd x) \<le> t"
    and "\<forall>x \<in> set ops. op_time x \<le> t"
  shows "\<forall>y \<in> set (items (run_store_ops ops c)). lastAccessedAt (snd y) \<le> t"
  using assms
proof (induction ops arbitrary: c)
  case Nil
  then show ?case by simp
next
  case (Cons x xs)
  from Cons.prems have "\<forall>y \<in> set (items (apply_store_op x c)). lastAccessedAt (snd y) \<le> t"
    by (intro apply_store_op_recency) simp_all
  moreover from Cons.prems have "\<forall>x \<in> set xs. op_time x \<le> t"
    by simp
  ultimately have "\<forall>y \<in> set (items (run_store_ops xs (apply_store_op x c))). lastAccessedAt (snd y) \<le> t"
    by (rule Cons.IH)
  then show ?case by simp
qed

text \<open>What a \<^verbatim>\<open>get\<close> right after a \<^verbatim>\<open>put\<close> of the same key returns.\<close>

lemma lru_get_after_set:
  "fst (lru_get now' h (lru_set now h q c))
     = (if h \<in> fst ` set (items (lru_set now h q c)) \<and> now' \<le> now + ttl c then Some q else None)"
proof (cases "h \<in> fst ` set (items (lru_set now h q c))")
  case False
  then have "map_of (items (lru_set now h q c)) h = None"
    by (simp add: map_of_eq_None_iff)
  with False show ?thesis
    by (simp add: lru_get_def)
next
  case True
  let ?new = "\<lparr> val = q, insertedAt = now, lastAccessedAt = now \<rparr>"
  let ?c' = "lru_set now h q c"
  have only: "e = ?new" if "(h, e) \<in> set (items ?c')" for e
    using that set_items_lru_set [of now h q c] insert_entry_key [of h e now q "items c"] by auto
  from True obtain e where "(h, e) \<in> set (items ?c')"
    by auto
  with only have "(h, ?new) \<in> set (items ?c')" by auto
  then have "map_of (items ?c') h = Some ?new"
    using only by (rule map_of_unique)
  with True show ?thesis
    by (auto simp: lru_get_def expired_def)
qed

text \<open>
  Claim C8. On the default store after any sequence of operations, with a capacity
  above zero, a \<^verbatim>\<open>put(h, q)\<close> that is not earlier than those operations, followed at
  once by a \<^verbatim>\<open>get(h)\<close> within the time-to-live, returns \<open>q\<close>, a raw text or a document,
  as it was given: under these conditions the \<^verbatim>\<open>put\<close> does not evict the entry it writes
  and the entry has not expired. On any store, the \<^verbatim>\<open>get\<close> returns \<open>q\<close> exactly when the
  key is still held after the \<^verbatim>\<open>put\<close> (no eviction) and the \<^verbatim>\<open>get\<close> comes no later than
  the time-to-live after it (no expiry), and misses otherwise; and the key is still
  held whenever the capacity is above zero and no entry was accessed after the clock
  reading of the \<^verbatim>\<open>put\<close>.
\<close>

theorem put_get_round_trip:
  "(c = run_store_ops ops (createLRUStore maxSize time_to_live) \<and> maxSize \<noteq> Some 0
      \<and> (\<forall>x \<in> set ops. op_time x \<le> now) \<and> now' \<le> now + ttl c \<longrightarrow>
      fst (get (LRUStore now') h (put (LRUStore now) h q c)) = Some q)
   \<and> fst (get (LRUStore now') h (put (LRUStore now) h q c))
       = (if h \<in> fst ` set (items (put (LRUStore now) h q c)) \<and> now' \<le> now + ttl c
          then Some q else None)
   \<and> (0 < capacity c \<and> (\<forall>x \<in> set (items c). lastAccessedAt (snd x) \<le> now) \<longrightarrow>
        h \<in> fst ` set (items (put (LRUStore now) h q c)))"
proof -
  have rt: "fst (get (LRUStore now') h (put (LRUStore now) h q c))
       = (if h \<in> fst ` set (items (put (LRUStore now) h q c)) \<and> now' \<le> now + ttl c
          then Some q else None)"
    using lru_get_after_set [of now' h now q c] by (simp add: LRUStore_def)
  have keep: "h \<in> fst ` set (items (put (LRUStore now) h q c))"
    if "0 < capacity c" and "\<forall>x \<in> set (items c). lastAccessedAt (snd x) \<le> now"
    using lru_set_keeps_key [OF that, of h q] by (simp add: LRUStore_def)
  have reach: "fst (get (LRUStore now') h (put (LRUStore now) h q c)) = Some q"
    if c: "c = run_store_ops ops (createLRUStore maxSize time_to_live)"
      and m: "maxSize \<noteq> Some 0"
      and t: "\<forall>x \<in> set ops. op_time x \<le> now"
      and l: "now' \<le> now + ttl c"
  proof -
    let ?c0 = "createLRUStore maxSize time_to_live :: (jsval, 'a stored) LRU_cache"
    have "capacity c = capacity ?c0"
      using run_store_ops_fields [of ops ?c0] c by simp
    with m have cap: "0 < capacity c"
      by (cases maxSize) (simp_all add: createLRUStore_def LRU_def DEFAULT_MAX_def)
    have "\<forall>x \<in> set (items ?c0). lastAccessedAt (snd x) \<le> now"
      by (simp add: createLRUStore_def LRU_def)
    then have "\<forall>x \<in> set (items c). lastAccessedAt (snd x) \<le> now"
      unfolding c using t by (rule run_store_ops_recency)
    with cap have "h \<in> fst ` set (items (put (LRUStore now) h q c))"
      by (rule keep)
    with rt l show ?thesis by simp
  qed
  from rt keep reach show ?thesis by blast
qed

theorem put_get_round_trip_witness:
  "run_store_ops [OpPut 0 (JStr ''h1'') (Text ''q1''), OpPut 1 (JStr ''h2'') (Node ''d2''),
                  OpGet 2 (JStr ''h1'')] (createLRUStore (Some 2) (Some 10))
     = \<lparr> capacity = 2, ttl = 10,
         items = [(JStr ''h1'', \<lparr> val = Text ''q1'', insertedAt = 0, lastAccessedAt = 2 \<rparr>),
                  (JStr ''h2'', \<lparr> val = Node ''d2'', insertedAt = 1, lastAccessedAt = 1 \<rparr>)] \<rparr>
   \<and> put (LRUStore 3) (JStr ''h3'') (Node ''d3'')
        \<lparr> capacity = 2, ttl = 10,
          items = [(JStr ''h1'', \<lparr> val = Text ''q1'', insertedAt = 0, lastAccessedAt = 2 \<rparr>),
                   (JStr ''h2'', \<lparr> val = Node ''d2'', insertedAt = 1, lastAccessedAt = 1 \<rparr>)] \<rparr>
     = \<lparr> capacity = 2, ttl = 10,
         items = [(JStr ''h1'', \<lparr> val = Text ''q1'', insertedAt = 0, lastAccessedAt = 2 \<rparr>),
                  (JStr ''h3'', \<lparr> val = Node ''d3'', insertedAt = 3, lastAccessedAt = 3 \<rparr>)] \<rparr>
   \<and> fst (get (LRUStore 13) (JStr ''h3'')
        (put (LRUStore 3) (JStr ''h3'') (Node ''d3'')
          \<lparr> capacity = 2, ttl = 10,
            items = [(JStr ''h1'', \<lparr> val = Text ''q1'', insertedAt = 0, lastAccessedAt = 2 \<rparr>),
                     (JStr ''h2'', \<lparr> val = Node ''d2'', insertedAt = 1, lastAccessedAt = 1 \<rparr>)] \<rparr>))
     = Some (Node ''d3'')"
proof -
  let ?ops = "[OpPut 0 (JStr ''h1'') (Text ''q1''), OpPut 1 (JStr ''h2'') (Node ''d2''),
               OpGet 2 (JStr ''h1'')]"
  let ?c = "\<lparr> capacity = 2, ttl = 10,
         items = [(JStr ''h1'', \<lparr> val = Text ''q1'', insertedAt = 0, lastAccessedAt = 2 \<rparr>),
                  (JStr ''h2'', \<lparr> val = Node ''d2'', insertedAt = 1, lastAccessedAt = 1 \<rparr>)] \<rparr>"
  have run: "?c = run_store_ops ?ops (createLRUStore (Some 2) (Some 10))"
    by (simp add: createLRUStore_def LRU_def LRUStore_def lru_set_def lru_get_def insert_entry_def
        remove_key_def touch_def expired_def evict_def)
  have m: "Some (2::nat) \<noteq> Some 0"
    by simp
  have t: "\<forall>x \<in> set ?ops. op_time x \<le> 3"
    by simp
  have l: "(13::nat) \<le> 3 + ttl ?c"
    by simp
  have p: "put (LRUStore 3) (JStr ''h3'') (Node ''d3'') ?c
     = \<lparr> capacity = 2, ttl = 10,
         items = [(JStr ''h1'', \<lparr> val = Text ''q1'', insertedAt = 0, lastAccessedAt = 2 \<rparr>),
                  (JStr ''h3'', \<lparr> val = Node ''d3'', insertedAt = 3, lastAccessedAt = 3 \<rparr>)] \<rparr>"
    by (simp add: LRUStore_def lru_set_def insert_entry_def remove_key_def evict_def)
  show ?thesis
    using put_get_round_trip [where c = ?c and ops = ?ops and maxSize = "Some 2"
        and time_to_live = "Some 10" and now = 3 and now' = 13 and h = "JStr ''h3''"
        and q = "Node ''d3''"] run m t l p
    by simp
qed

end
